theory Spec2Isabelle
  imports Main "HOL-Library.Word" "HOL-Library.Sublist"
begin

unbundle bit_operations_syntax

section \<open>extractZip of src/util.js\<close>

text \<open>
  The development embeds \<^verbatim>\<open>extractZip\<close> (src/util.js, lines 81 to 188). The function
  is a chain of callbacks driven by three libraries: yauzl delivers the entries of the
  archive, fs-extra touches the file system, the streams of Node carry the bytes. The
  libraries are the environment of the model: what each of their calls answers is a
  parameter (the record \<open>env\<close> and, per entry, the record \<open>entry_io\<close>), and what
  \<^verbatim>\<open>extractZip\<close> does with the answers is the model. A run yields the list of the calls
  the code makes, in order, and how the promise it returns settles.
\<close>

subsection \<open>JavaScript values\<close>

text \<open>
  The errors the code constructs (\<^verbatim>\<open>new TypeError(..)\<close>, \<^verbatim>\<open>new Error(..)\<close>); an
  error handed over by a library or thrown by the callback is a value of the same type.
\<close>

datatype error = TypeError string | Error string

text \<open>
  The argument of \<^verbatim>\<open>extractZip\<close> is any JavaScript value. A function value is the
  progress callback: applied to (name, index, total) it returns \<open>Some e\<close> when it
  throws \<open>e\<close>. Numbers are integers here (no NaN); an array is an object.
\<close>

datatype jsval =
    JUndefined
  | JNull
  | JBoolean bool
  | JNumber int
  | JString string
  | JFunction "string \<Rightarrow> nat \<Rightarrow> nat \<Rightarrow> error option"
  | JObject "(string \<times> jsval) list"

text \<open>\<^verbatim>\<open>!v\<close> is \<open>\<not> truthy v\<close>.\<close>

fun truthy :: "jsval \<Rightarrow> bool" where
  "truthy JUndefined = False"
| "truthy JNull = False"
| "truthy (JBoolean b) = b"
| "truthy (JNumber n) = (n \<noteq> 0)"
| "truthy (JString s) = (s \<noteq> [])"
| "truthy (JFunction f) = True"
| "truthy (JObject kvs) = True"

fun typeof :: "jsval \<Rightarrow> string" where
  "typeof JUndefined = ''undefined''"
| "typeof JNull = ''object''"
| "typeof (JBoolean b) = ''boolean''"
| "typeof (JNumber n) = ''number''"
| "typeof (JString s) = ''string''"
| "typeof (JFunction f) = ''function''"
| "typeof (JObject kvs) = ''object''"

text \<open>Property access \<^verbatim>\<open>v.k\<close>: a missing property is \<^verbatim>\<open>undefined\<close>.\<close>

fun getprop :: "jsval \<Rightarrow> string \<Rightarrow> jsval" where
  "getprop (JObject kvs) k = (case map_of kvs k of Some v \<Rightarrow> v | None \<Rightarrow> JUndefined)"
| "getprop v k = JUndefined"

text \<open>The characters of a string value (used only behind a \<^verbatim>\<open>typeof\<close> check).\<close>

fun str :: "jsval \<Rightarrow> string" where
  "str (JString s) = s"
| "str v = []"

subsection \<open>Paths: \<^verbatim>\<open>path.join\<close> and \<^verbatim>\<open>path.dirname\<close> (POSIX)\<close>

text \<open>The segments of a path: the pieces between the slashes.\<close>

fun split_slash :: "string \<Rightarrow> string list" where
  "split_slash [] = [[]]"
| "split_slash (c # cs) =
     (if c = CHR ''/'' then [] # split_slash cs
      else (case split_slash cs of
              [] \<Rightarrow> [[c]]
            | s # ss \<Rightarrow> (c # s) # ss))"

fun join_slash :: "string list \<Rightarrow> string" where
  "join_slash [] = []"
| "join_slash [s] = s"
| "join_slash (s # t # ss) = s @ CHR ''/'' # join_slash (t # ss)"

text \<open>
  One step of Node's \<^verbatim>\<open>normalizeString\<close>, on segments: an empty segment and
  \<^verbatim>\<open>.\<close> are dropped; \<^verbatim>\<open>..\<close> removes the segment before it, unless there is none or
  it is \<^verbatim>\<open>..\<close> itself, and then it is kept (a relative path, \<open>allowAboveRoot\<close>) or
  dropped (an absolute path).
\<close>

definition normalizeStep :: "bool \<Rightarrow> string list \<Rightarrow> string \<Rightarrow> string list" where
  "normalizeStep allowAboveRoot res seg =
     (if seg = [] \<or> seg = ''.'' then res
      else if seg = ''..'' then
        (if res \<noteq> [] \<and> last res \<noteq> ''..'' then butlast res
         else if allowAboveRoot then res @ [''..'']
         else res)
      else res @ [seg])"

definition normalizeString :: "bool \<Rightarrow> string list \<Rightarrow> string list" where
  "normalizeString allowAboveRoot segs = foldl (normalizeStep allowAboveRoot) [] segs"

definition isAbsolute :: "string \<Rightarrow> bool" where
  "isAbsolute p = (p \<noteq> [] \<and> hd p = CHR ''/'')"

definition trailingSeparator :: "string \<Rightarrow> bool" where
  "trailingSeparator p = (p \<noteq> [] \<and> last p = CHR ''/'')"

definition posix_normalize :: "string \<Rightarrow> string" where
  "posix_normalize p =
     (if p = [] then ''.''
      else
        (let segs = normalizeString (\<not> isAbsolute p) (split_slash p) in
         if segs = [] then
           (if isAbsolute p then ''/''
            else if trailingSeparator p then ''./'' else ''.'')
         else
           (if isAbsolute p then ''/'' else []) @ join_slash segs
             @ (if trailingSeparator p then ''/'' else [])))"

text \<open>\<^verbatim>\<open>path.join(a, b)\<close>: the non-empty arguments, a slash between them, normalized.\<close>

definition path_join :: "string \<Rightarrow> string \<Rightarrow> string" where
  "path_join a b =
     (if a = [] \<and> b = [] then ''.''
      else if a = [] then posix_normalize b
      else if b = [] then posix_normalize a
      else posix_normalize (a @ ''/'' @ b))"

text \<open>
  \<^verbatim>\<open>path.dirname(p)\<close>: Node scans \<open>p\<close> from its end down to index 1, skips the
  trailing slashes and the last segment, and cuts at the slash before it.
\<close>

definition path_dirname :: "string \<Rightarrow> string" where
  "path_dirname p =
     (if p = [] then ''.''
      else
        (let r = dropWhile (\<lambda>c. c \<noteq> CHR ''/'') (dropWhile (\<lambda>c. c = CHR ''/'') (rev (tl p)));
             cut = length r
         in if r = [] then (if isAbsolute p then ''/'' else ''.'')
            else if isAbsolute p \<and> cut = 1 then ''//''
            else take cut p))"





subsection \<open>Entries and their classification\<close>

text \<open>
  The fields of a yauzl entry that the code reads. yauzl reads
  \<^verbatim>\<open>externalFileAttributes\<close> as an unsigned 32-bit and \<^verbatim>\<open>versionMadeBy\<close> as an
  unsigned 16-bit number.
\<close>

record entry =
  fileName :: string
  externalFileAttributes :: "32 word"
  versionMadeBy :: "16 word"

text \<open>\<^verbatim>\<open>fs.constants\<close>: the file type bits of a Unix mode.\<close>

definition S_IFMT :: "32 word" where "S_IFMT = 0xF000"
definition S_IFDIR :: "32 word" where "S_IFDIR = 0x4000"
definition S_IFLNK :: "32 word" where "S_IFLNK = 0xA000"

text \<open>Line 132: \<^verbatim>\<open>let mode = (entry.externalFileAttributes >>> 16) & 0xFFFF\<close>.\<close>

definition mode :: "entry \<Rightarrow> 32 word" where
  "mode e = drop_bit 16 (externalFileAttributes e) AND 0xFFFF"

definition symlink :: "entry \<Rightarrow> bool" where
  "symlink e = (mode e AND S_IFMT = S_IFLNK)"

definition madeBy :: "entry \<Rightarrow> 16 word" where
  "madeBy e = drop_bit 8 (versionMadeBy e)"

text \<open>Lines 135 to 142: the type bits, then the directory attribute of Windows.\<close>

definition isDir :: "entry \<Rightarrow> bool" where
  "isDir e =
     (let d = (mode e AND S_IFMT = S_IFDIR) in
      if \<not> d then (madeBy e = 0 \<and> externalFileAttributes e = 16) else d)"

text \<open>
  Lines 144 to 146: \<^verbatim>\<open>mode\<close> after \<^verbatim>\<open>if (mode === 0) mode = 0o644\<close>
  (octal 644 is 420).
\<close>

definition fileMode :: "entry \<Rightarrow> 32 word" where
  "fileMode e = (if mode e = 0 then 420 else mode e)"

subsection \<open>The environment\<close>

text \<open>
  What the libraries answer for one record of the archive: whether yauzl fails to read
  the record (it then emits \<^verbatim>\<open>error\<close> on the zipfile), whether \<^verbatim>\<open>fs.mkdirp\<close>
  fails, whether \<^verbatim>\<open>zipfile.openReadStream\<close> fails on an open archive, the chunks
  the read stream delivers and whether it then emits \<^verbatim>\<open>error\<close> instead of
  \<^verbatim>\<open>end\<close>, whether the write stream emits \<^verbatim>\<open>error\<close> (and then, as every
  write stream of Node does, \<^verbatim>\<open>close\<close>), whether \<^verbatim>\<open>fs.symlinkSync\<close> throws.
\<close>

record entry_io =
  header_err :: "error option"
  mkdirp_err :: "error option"
  openReadStream_err :: "error option"
  chunks :: "8 word list list"
  readStream_err :: "error option"
  writeStream_err :: "error option"
  symlinkSync_err :: "error option"

text \<open>
  An opened archive: the records of its central directory in order, each with the
  answers of the libraries for it. With \<^verbatim>\<open>lazyEntries\<close> yauzl emits one
  \<^verbatim>\<open>entry\<close> per call of \<^verbatim>\<open>readEntry\<close>, and \<^verbatim>\<open>end\<close> once all
  \<^verbatim>\<open>entryCount\<close> records are read.
\<close>

type_synonym zipfile = "(entry \<times> entry_io) list"

definition entryCount :: "zipfile \<Rightarrow> nat" where
  "entryCount z = length z"

record env =
  existsSync :: "string \<Rightarrow> bool"
  isFile :: "string \<Rightarrow> bool"
  yauzl_open :: "string \<Rightarrow> string + zipfile"
  toString_utf8 :: "8 word list \<Rightarrow> string"

text \<open>
  What yauzl does with the name of a record before it emits \<^verbatim>\<open>entry\<close>, opened as
  on line 107 (\<^verbatim>\<open>decodeStrings\<close> and \<^verbatim>\<open>strictFileNames\<close> at their defaults):
  every backslash becomes a slash, and \<^verbatim>\<open>validateFileName\<close> refuses a name that
  still has a backslash, that is absolute (a drive letter or a leading slash) or that has
  a \<^verbatim>\<open>..\<close> segment.
\<close>

definition yauzl_fileName :: "string \<Rightarrow> string" where
  "yauzl_fileName name = map (\<lambda>c. if c = CHR 0x5C then CHR ''/'' else c) name"

definition is_letter :: "char \<Rightarrow> bool" where
  "is_letter c =
     ((97::nat) \<le> of_char c \<and> of_char c \<le> (122::nat)
      \<or> (65::nat) \<le> of_char c \<and> of_char c \<le> (90::nat))"

definition validateFileName :: "string \<Rightarrow> string option" where
  "validateFileName name =
     (if CHR 0x5C \<in> set name then Some (''invalid characters in fileName: '' @ name)
      else if (case name of c # d # cs \<Rightarrow> is_letter c \<and> d = CHR '':'' | _ \<Rightarrow> False)
              \<or> isAbsolute name
        then Some (''absolute path: '' @ name)
      else if ''..'' \<in> set (split_slash name)
        then Some (''invalid relative path: '' @ name)
      else None)"

text \<open>
  One record read by yauzl: the error it emits on the zipfile, or the entry it emits.
\<close>

definition deliver :: "entry \<times> entry_io \<Rightarrow> error + entry \<times> entry_io" where
  "deliver ei =
     (case header_err (snd ei) of
        Some err \<Rightarrow> Inl err
      | None \<Rightarrow>
          (case validateFileName (yauzl_fileName (fileName (fst ei))) of
             Some msg \<Rightarrow> Inl (Error msg)
           | None \<Rightarrow> Inr ((fst ei)\<lparr>fileName := yauzl_fileName (fileName (fst ei))\<rparr>, snd ei)))"

text \<open>
  \<^verbatim>\<open>zipfile.openReadStream\<close>: after \<^verbatim>\<open>zipfile.close()\<close> every call fails.
\<close>

definition openReadStream :: "bool \<Rightarrow> entry_io \<Rightarrow> error option" where
  "openReadStream isOpen io = (if isOpen then openReadStream_err io else Some (Error ''closed''))"

subsection \<open>Runs\<close>

text \<open>
  The calls the code makes. \<open>Mkdirp p\<close> is the call \<^verbatim>\<open>fs.mkdirp(p, cb)\<close> up to the
  moment its callback runs, \<open>WriteStreamClose p\<close> the \<^verbatim>\<open>close\<close> event of the write
  stream on \<open>p\<close>, \<open>ZipfileClose\<close> a call of \<^verbatim>\<open>zipfile.close()\<close> by the code or
  yauzl closing an open archive by its \<^verbatim>\<open>autoClose\<close>. An event carries the value of
  \<^verbatim>\<open>idx\<close> of the entry whose handler makes the call, 0 outside the handlers.
\<close>

datatype action =
    ExistsSync string
  | IsFile string
  | YauzlOpen string
  | OnEntry string nat nat
  | Mkdirp string
  | OpenReadStream string
  | CreateWriteStream string "32 word"
  | WriteStreamClose string
  | SymlinkSync string string
  | ReadEntry
  | RemoveEndListener
  | ZipfileClose
  | Resolve
  | Reject error

type_synonym event = "nat \<times> action"

text \<open>
  How the promise ends: resolved, rejected, or left pending because an error was thrown
  out of an event listener or emitted with no listener (an uncaught exception).
\<close>

datatype outcome = Resolved | Rejected error | Uncaught error

text \<open>
  How a handler ends: it asks for the next entry; it has called \<^verbatim>\<open>abort\<close> and asks
  for the next entry all the same; or it stops.
\<close>

datatype step = Advance | AbortAdvance error | Stop outcome

definition prepend :: "event list \<Rightarrow> event list \<times> step \<Rightarrow> event list \<times> step" where
  "prepend evs r = (evs @ fst r, snd r)"

text \<open>Lines 114 to 118.\<close>

definition abort :: "nat \<Rightarrow> error \<Rightarrow> event list \<times> step" where
  "abort idx err =
     ([(idx, RemoveEndListener), (idx, ZipfileClose), (idx, Reject err)], Stop (Rejected err))"

definition Buffer_concat :: "8 word list list \<Rightarrow> 8 word list" where
  "Buffer_concat cs = concat cs"

text \<open>
  Lines 148, 165 and 167: which of the three branches of the handler an entry takes.
\<close>

datatype EntryKind = Directory | Symlink | RegularFile

definition kind :: "entry \<Rightarrow> EntryKind" where
  "kind e = (if symlink e then Symlink else if isDir e then Directory else RegularFile)"

text \<open>
  Lines 131 to 182, the three branches of the entry handler. A read stream with no
  \<^verbatim>\<open>error\<close> listener (the regular file's) throws the error it emits; so does
  \<^verbatim>\<open>fs.symlinkSync\<close> inside the \<^verbatim>\<open>end\<close> listener. The callback of
  \<^verbatim>\<open>fs.mkdirp\<close> takes no argument: \<open>mkdirp_err\<close> is not read. The write stream
  has two listeners (lines 177 and 178): when it fails, \<^verbatim>\<open>error\<close> runs
  \<^verbatim>\<open>abort\<close> and the \<^verbatim>\<open>close\<close> that follows runs \<^verbatim>\<open>zipfile.readEntry()\<close>.
\<close>

definition materialize :: "env \<Rightarrow> string \<Rightarrow> nat \<Rightarrow> bool \<Rightarrow> entry \<Rightarrow> entry_io \<Rightarrow> event list \<times> step" where
  "materialize env dest idx isOpen e io =
     (let fullPath = path_join dest (fileName e) in
      case kind e of
        Symlink \<Rightarrow>
          prepend [(idx, Mkdirp (path_dirname fullPath)), (idx, OpenReadStream (fileName e))]
            (case openReadStream isOpen io of
               Some err \<Rightarrow> abort idx err
             | None \<Rightarrow>
                 (case readStream_err io of
                    Some err \<Rightarrow> abort idx err
                  | None \<Rightarrow>
                      (let s = toString_utf8 env (Buffer_concat (chunks io)) in
                       case symlinkSync_err io of
                         Some err \<Rightarrow> ([(idx, SymlinkSync s fullPath)], Stop (Uncaught err))
                       | None \<Rightarrow> ([(idx, SymlinkSync s fullPath), (idx, ReadEntry)], Advance))))
      | Directory \<Rightarrow>
          ([(idx, Mkdirp fullPath), (idx, ReadEntry)], Advance)
      | RegularFile \<Rightarrow>
          prepend [(idx, Mkdirp (path_dirname fullPath)), (idx, OpenReadStream (fileName e))]
            (case openReadStream isOpen io of
               Some err \<Rightarrow> abort idx err
             | None \<Rightarrow>
                 prepend [(idx, CreateWriteStream fullPath (fileMode e))]
                   (case readStream_err io of
                      Some err \<Rightarrow> ([], Stop (Uncaught err))
                    | None \<Rightarrow>
                        (case writeStream_err io of
                           Some err \<Rightarrow>
                             (fst (abort idx err)
                                @ [(idx, WriteStreamClose fullPath), (idx, ReadEntry)],
                              AbortAdvance err)
                         | None \<Rightarrow>
                             ([(idx, WriteStreamClose fullPath), (idx, ReadEntry)], Advance)))))"

text \<open>
  Lines 121 to 130: the handler of \<^verbatim>\<open>entry\<close>, called with \<^verbatim>\<open>idx\<close> already
  incremented. The \<^verbatim>\<open>catch\<close> of line 126 calls \<^verbatim>\<open>reject\<close>, not \<^verbatim>\<open>abort\<close>.
\<close>

definition on_entry :: "env \<Rightarrow> jsval \<Rightarrow> string \<Rightarrow> nat \<Rightarrow> nat \<Rightarrow> bool \<Rightarrow> entry \<times> entry_io \<Rightarrow> event list \<times> step" where
  "on_entry env params dest tot idx isOpen ei =
     (case getprop params ''onEntry'' of
        JFunction f \<Rightarrow>
          (case f (fileName (fst ei)) idx tot of
             Some err \<Rightarrow>
               ([(idx, OnEntry (fileName (fst ei)) idx tot), (idx, Reject err)],
                Stop (Rejected err))
           | None \<Rightarrow>
               prepend [(idx, OnEntry (fileName (fst ei)) idx tot)]
                 (materialize env dest idx isOpen (fst ei) (snd ei)))
      | _ \<Rightarrow> materialize env dest idx isOpen (fst ei) (snd ei))"

text \<open>
  A promise settles once: after \<^verbatim>\<open>abort\<close> has rejected it with \<open>e\<close>, it stays
  rejected with \<open>e\<close>.
\<close>

definition settle :: "error option \<Rightarrow> outcome \<Rightarrow> outcome" where
  "settle aborted out = (case aborted of None \<Rightarrow> out | Some e \<Rightarrow> Rejected e)"

text \<open>
  yauzl emits \<^verbatim>\<open>error\<close> on the zipfile, closing it first when it is open. The code
  has no listener for it: the error is thrown. A promise that \<^verbatim>\<open>abort\<close> has rejected
  stays rejected.
\<close>

definition emitErrorAndAutoClose :: "error option \<Rightarrow> error \<Rightarrow> event list \<times> outcome" where
  "emitErrorAndAutoClose aborted err =
     (case aborted of
        None \<Rightarrow> ([(0, ZipfileClose)], Uncaught err)
      | Some e \<Rightarrow> ([], Rejected e))"

text \<open>
  \<^verbatim>\<open>zipfile.readEntry()\<close> with \<open>idx\<close> entries read and \<open>es\<close> left; \<open>aborted\<close> is
  the error of an \<^verbatim>\<open>abort\<close> that has run (the promise is rejected, the archive
  closed, the listener of \<^verbatim>\<open>end\<close> removed). yauzl reads the next record and emits
  \<^verbatim>\<open>entry\<close> or \<^verbatim>\<open>error\<close>; when no record is left, it closes the archive if
  it is open (its \<^verbatim>\<open>autoClose\<close>, on by default) and emits \<^verbatim>\<open>end\<close>, whose
  listener is \<^verbatim>\<open>resolve\<close> unless \<^verbatim>\<open>abort\<close> removed it. yauzl does not look at
  \<^verbatim>\<open>isOpen\<close> in \<^verbatim>\<open>readEntry\<close>: while the read stream of the failed entry
  holds the file, the records are still read.
\<close>

fun readEntry :: "env \<Rightarrow> jsval \<Rightarrow> string \<Rightarrow> nat \<Rightarrow> nat \<Rightarrow> error option \<Rightarrow> zipfile \<Rightarrow> event list \<times> outcome" where
  "readEntry env params dest tot idx aborted [] =
     (case aborted of
        None \<Rightarrow> ([(0, ZipfileClose), (0, Resolve)], Resolved)
      | Some e \<Rightarrow> ([], Rejected e))"
| "readEntry env params dest tot idx aborted (ei # es) =
     (case deliver ei of
        Inl err \<Rightarrow> emitErrorAndAutoClose aborted err
      | Inr d \<Rightarrow>
          (case on_entry env params dest tot (Suc idx) (aborted = None) d of
             (evs, Advance) \<Rightarrow>
               (case readEntry env params dest tot (Suc idx) aborted es of
                  (evs', out) \<Rightarrow> (evs @ evs', out))
           | (evs, AbortAdvance err) \<Rightarrow>
               (case readEntry env params dest tot (Suc idx)
                       (Some (case aborted of None \<Rightarrow> err | Some e \<Rightarrow> e)) es of
                  (evs', out) \<Rightarrow> (evs @ evs', out))
           | (evs, Stop out) \<Rightarrow> (evs, settle aborted out)))"

text \<open>Lines 81 to 188. An exception thrown in an \<^verbatim>\<open>async\<close> function rejects its promise.\<close>

definition extractZip :: "env \<Rightarrow> jsval \<Rightarrow> event list \<times> outcome" where
  "extractZip env params =
     (if \<not> truthy params \<or> typeof params \<noteq> ''object'' then
        ([], Rejected (TypeError ''Expected params to be an object''))
      else
        (let dest = getprop params ''dest''; file = getprop params ''file'' in
         if \<not> truthy dest \<or> typeof dest \<noteq> ''string'' then
           ([], Rejected (TypeError ''Expected destination directory to be a non-empty string''))
         else if \<not> truthy file \<or> typeof file \<noteq> ''string'' then
           ([], Rejected (TypeError ''Expected zip file to be a non-empty string''))
         else if \<not> existsSync env (str file) then
           ([(0, ExistsSync (str file))],
            Rejected (Error ''The specified zip file does not exist''))
         else if \<not> isFile env (str file) then
           ([(0, ExistsSync (str file)), (0, IsFile (str file))],
            Rejected (Error ''The specified zip file is not a file''))
         else
           (case yauzl_open env (str file) of
              Inl msg \<Rightarrow>
                ([(0, ExistsSync (str file)), (0, IsFile (str file)), (0, YauzlOpen (str file))],
                 Rejected (Error (''Invalid zip file: '' @ msg)))
            | Inr zipfile \<Rightarrow>
                (case readEntry env params (str dest) (entryCount zipfile) 0 None zipfile of
                   (evs, out) \<Rightarrow>
                     ([(0, ExistsSync (str file)), (0, IsFile (str file)),
                       (0, YauzlOpen (str file)), (0, ReadEntry)] @ evs, out)))))"

subsection \<open>Reading a run\<close>

text \<open>How often the archive is closed in a run, and whether \<^verbatim>\<open>yauzl.open\<close> was called.\<close>

definition closes :: "event list \<Rightarrow> nat" where
  "closes tr = length (filter (\<lambda>ev. snd ev = ZipfileClose) tr)"

fun is_open :: "action \<Rightarrow> bool" where
  "is_open (YauzlOpen f) = True"
| "is_open a = False"

definition opened :: "event list \<Rightarrow> bool" where
  "opened tr = list_ex (\<lambda>ev. is_open (snd ev)) tr"

text \<open>The precondition in the words of the specification: a non-empty string.\<close>

fun nonEmptyString :: "jsval \<Rightarrow> bool" where
  "nonEmptyString (JString s) = (s \<noteq> [])"
| "nonEmptyString v = False"

text \<open>The events of entry \<open>n\<close> in a run, in the order of the run.\<close>

definition events_of :: "nat \<Rightarrow> event list \<Rightarrow> event list" where
  "events_of n tr = filter (\<lambda>ev. fst ev = n) tr"

text \<open>The invocations of the progress callback, with their arguments.\<close>

fun call_of :: "action \<Rightarrow> (string \<times> nat \<times> nat) list" where
  "call_of (OnEntry name i t) = [(name, i, t)]"
| "call_of a = []"

definition calls :: "event list \<Rightarrow> (string \<times> nat \<times> nat) list" where
  "calls tr = concat (map (\<lambda>ev. call_of (snd ev)) tr)"

text \<open>The write streams a run creates, with path and mode.\<close>

fun created_by :: "action \<Rightarrow> (string \<times> 32 word) list" where
  "created_by (CreateWriteStream p m) = [(p, m)]"
| "created_by a = []"

definition created :: "event list \<Rightarrow> (string \<times> 32 word) list" where
  "created tr = concat (map (\<lambda>ev. created_by (snd ev)) tr)"

text \<open>Whether an action is a call of \<^verbatim>\<open>reject\<close>.\<close>

fun is_reject :: "action \<Rightarrow> bool" where
  "is_reject (Reject e) = True"
| "is_reject a = False"

text \<open>The run gets past the checks of lines 82 to 102 and \<^verbatim>\<open>yauzl.open\<close> yields \<open>z\<close>.\<close>

definition opens_archive :: "env \<Rightarrow> jsval \<Rightarrow> zipfile \<Rightarrow> bool" where
  "opens_archive env params z =
     (truthy params \<and> typeof params = ''object''
      \<and> nonEmptyString (getprop params ''dest'') \<and> nonEmptyString (getprop params ''file'')
      \<and> existsSync env (str (getprop params ''file''))
      \<and> isFile env (str (getprop params ''file''))
      \<and> yauzl_open env (str (getprop params ''file'')) = Inr z)"



text \<open>
  The entry \<open>ei\<close>, handled as number \<open>n\<close> while the archive is open, raises
  \<open>x\<close>: the callback throws \<open>x\<close> for it, or the stream of a link or a file fails to
  open with \<open>x\<close>, or the read stream of a link or the write stream of a file emits the
  error \<open>x\<close>.
\<close>

definition raises :: "jsval \<Rightarrow> nat \<Rightarrow> nat \<Rightarrow> entry \<times> entry_io \<Rightarrow> error \<Rightarrow> bool" where
  "raises params tot n ei x =
     ((case getprop params ''onEntry'' of
         JFunction f \<Rightarrow> f (fileName (fst ei)) n tot = Some x
       | _ \<Rightarrow> False)
      \<or> (kind (fst ei) \<noteq> Directory \<and> openReadStream_err (snd ei) = Some x)
      \<or> (kind (fst ei) = Symlink \<and> readStream_err (snd ei) = Some x)
      \<or> (kind (fst ei) = RegularFile \<and> writeStream_err (snd ei) = Some x))"

text \<open>The same archive in a file system where every \<^verbatim>\<open>fs.mkdirp\<close> answers \<open>x\<close>.\<close>

definition mkdirp_failing :: "error option \<Rightarrow> zipfile \<Rightarrow> zipfile" where
  "mkdirp_failing x z = map (\<lambda>ei. (fst ei, (snd ei)\<lparr>mkdirp_err := x\<rparr>)) z"

subsection \<open>A concrete archive\<close>

text \<open>
  Three entries, as an archive packed on Unix and on Windows would hold them: the regular
  file \<^verbatim>\<open>a.txt\<close> (mode 0100644), the directory \<^verbatim>\<open>dir/\<close> marked by the DOS attribute
  only, the symbolic link \<^verbatim>\<open>dir/link\<close> (mode 0120777) whose content is \<^verbatim>\<open>../a\<close>.
\<close>

definition io_ok :: entry_io where
  "io_ok = \<lparr>header_err = None, mkdirp_err = None, openReadStream_err = None,
            chunks = [[0x2E, 0x2E], [0x2F, 0x61]], readStream_err = None,
            writeStream_err = None, symlinkSync_err = None\<rparr>"

definition e_file :: entry where
  "e_file = \<lparr>fileName = ''a.txt'', externalFileAttributes = 0x81A40000, versionMadeBy = 0x031E\<rparr>"

definition e_dir :: entry where
  "e_dir = \<lparr>fileName = ''dir/'', externalFileAttributes = 16, versionMadeBy = 20\<rparr>"

definition e_link :: entry where
  "e_link = \<lparr>fileName = ''dir/link'', externalFileAttributes = 0xA1FF0000, versionMadeBy = 0x031E\<rparr>"

text \<open>Bytes below 128 decode to the character of the same code.\<close>

definition ascii :: "8 word list \<Rightarrow> string" where
  "ascii bs = map (\<lambda>b. char_of (unat b)) bs"

definition env_of :: "zipfile \<Rightarrow> env" where
  "env_of z = \<lparr>existsSync = (\<lambda>p. p = ''a.zip'' \<or> p = ''d''), isFile = (\<lambda>p. p = ''a.zip''),
               yauzl_open = (\<lambda>p. Inr z), toString_utf8 = ascii\<rparr>"

definition archive3 :: zipfile where
  "archive3 = [(e_file, io_ok), (e_dir, io_ok), (e_link, io_ok)]"

definition params_of :: "string \<Rightarrow> string \<Rightarrow> jsval" where
  "params_of d f = JObject [(''dest'', JString d), (''file'', JString f)]"

text \<open>A regular file packed without Unix mode bits (only the DOS archive attribute).\<close>

definition e_zero :: entry where
  "e_zero = \<lparr>fileName = ''b.bin'', externalFileAttributes = 0x20, versionMadeBy = 20\<rparr>"

text \<open>Parameters with a progress callback; \<open>throws_at k\<close> throws at the \<open>k\<close>-th entry.\<close>

definition params_cb :: "string \<Rightarrow> string \<Rightarrow> (string \<Rightarrow> nat \<Rightarrow> nat \<Rightarrow> error option) \<Rightarrow> jsval" where
  "params_cb d f cb =
     JObject [(''dest'', JString d), (''file'', JString f), (''onEntry'', JFunction cb)]"

definition throws_at :: "nat \<Rightarrow> string \<Rightarrow> nat \<Rightarrow> nat \<Rightarrow> error option" where
  "throws_at k name i t = (if i = k then Some (Error ''boom'') else None)"

text \<open>An entry whose name climbs out of the destination.\<close>

definition e_escape :: entry where
  "e_escape = \<lparr>fileName = ''../../escape.txt'', externalFileAttributes = 0x81A40000,
               versionMadeBy = 0x031E\<rparr>"

text \<open>
  A directory whose creation fails; a file whose write stream fails, followed by a
  directory; a file whose stream does not open.
\<close>

definition archive_mkdirp_fails :: zipfile where
  "archive_mkdirp_fails = [(e_dir, io_ok\<lparr>mkdirp_err := Some (Error ''EACCES'')\<rparr>), (e_file, io_ok)]"

definition archive_write_fails :: zipfile where
  "archive_write_fails = [(e_file, io_ok\<lparr>writeStream_err := Some (Error ''ENOSPC'')\<rparr>), (e_dir, io_ok)]"

definition archive_open_fails :: zipfile where
  "archive_open_fails = [(e_file, io_ok\<lparr>openReadStream_err := Some (Error ''EIO'')\<rparr>), (e_dir, io_ok)]"

section \<open>Properties\<close>

subsection \<open>The checks before the archive is opened\<close>

text \<open>
  C10. An argument that is absent or not an object (\<^verbatim>\<open>undefined\<close>, \<^verbatim>\<open>null\<close>, a
  boolean, a number, a string, a function) rejects with the TypeError
  \<^verbatim>\<open>Expected params to be an object\<close>; the run makes no call at all: no file system
  query, no \<^verbatim>\<open>yauzl.open\<close>. The result does not depend on anything else, so the check
  comes before those on the destination and the source.
\<close>

theorem extractZip_params_not_object:
  assumes "\<forall>kvs. params \<noteq> JObject kvs"
  shows "extractZip env params = ([], Rejected (TypeError ''Expected params to be an object''))"
  using assms by (cases params) (simp_all add: extractZip_def)

theorem extractZip_params_not_object_witness:
  "extractZip (env_of archive3) JUndefined
     = ([], Rejected (TypeError ''Expected params to be an object''))
   \<and> extractZip (env_of archive3) (JString ''a.zip'')
     = ([], Rejected (TypeError ''Expected params to be an object''))"
  using extractZip_params_not_object [of JUndefined "env_of archive3"]
    extractZip_params_not_object [of "JString ''a.zip''" "env_of archive3"]
  by simp

lemma nonEmptyString_iff: "nonEmptyString v \<longleftrightarrow> \<not> (\<not> truthy v \<or> typeof v \<noteq> ''string'')"
  by (cases v) simp_all

text \<open>
  C8. With an object as argument the four preconditions are checked in this order, each
  with a failure of its own, and none of them opens the archive: the destination is not
  a non-empty string; the source is not a non-empty string; the source does not exist;
  the source is not a regular file.
\<close>

theorem extractZip_preconditions:
  fixes kvs :: "(string \<times> jsval) list" and env :: env
  defines "dest \<equiv> getprop (JObject kvs) ''dest''"
    and "file \<equiv> getprop (JObject kvs) ''file''"
    and "r \<equiv> extractZip env (JObject kvs)"
  shows "(\<not> nonEmptyString dest \<longrightarrow>
            r = ([], Rejected (TypeError ''Expected destination directory to be a non-empty string'')))
       \<and> (nonEmptyString dest \<and> \<not> nonEmptyString file \<longrightarrow>
            r = ([], Rejected (TypeError ''Expected zip file to be a non-empty string'')))
       \<and> (nonEmptyString dest \<and> nonEmptyString file \<and> \<not> existsSync env (str file) \<longrightarrow>
            snd r = Rejected (Error ''The specified zip file does not exist'') \<and> \<not> opened (fst r))
       \<and> (nonEmptyString dest \<and> nonEmptyString file \<and> existsSync env (str file)
            \<and> \<not> isFile env (str file) \<longrightarrow>
            snd r = Rejected (Error ''The specified zip file is not a file'') \<and> \<not> opened (fst r))
       \<and> distinct [TypeError ''Expected destination directory to be a non-empty string'',
                   TypeError ''Expected zip file to be a non-empty string'',
                   Error ''The specified zip file does not exist'',
                   Error ''The specified zip file is not a file'']"
  unfolding r_def dest_def file_def
  by (simp add: extractZip_def nonEmptyString_iff opened_def Let_def del: getprop.simps)

theorem extractZip_preconditions_witness:
  "extractZip (env_of archive3) (params_of [] ''a.zip'')
     = ([], Rejected (TypeError ''Expected destination directory to be a non-empty string''))
   \<and> extractZip (env_of archive3) (JObject [(''dest'', JString ''/out'')])
     = ([], Rejected (TypeError ''Expected zip file to be a non-empty string''))
   \<and> snd (extractZip (env_of archive3) (params_of ''/out'' ''b.zip''))
     = Rejected (Error ''The specified zip file does not exist'')
   \<and> \<not> opened (fst (extractZip (env_of archive3) (params_of ''/out'' ''b.zip'')))
   \<and> snd (extractZip (env_of archive3) (params_of ''/out'' ''d''))
     = Rejected (Error ''The specified zip file is not a file'')
   \<and> \<not> opened (fst (extractZip (env_of archive3) (params_of ''/out'' ''d'')))"
  using extractZip_preconditions [where kvs = "[(''dest'', JString []), (''file'', JString ''a.zip'')]" and env = "env_of archive3"]
    extractZip_preconditions [where kvs = "[(''dest'', JString ''/out'')]" and env = "env_of archive3"]
    extractZip_preconditions [where kvs = "[(''dest'', JString ''/out''), (''file'', JString ''b.zip'')]" and env = "env_of archive3"]
    extractZip_preconditions [where kvs = "[(''dest'', JString ''/out''), (''file'', JString ''d'')]" and env = "env_of archive3"]
  by (simp add: params_of_def env_of_def)

subsection \<open>The shape of a run\<close>

lemma calls_append: "calls (xs @ ys) = calls xs @ calls ys"
  by (simp add: calls_def)

lemma events_of_append: "events_of n (xs @ ys) = events_of n xs @ events_of n ys"
  by (simp add: events_of_def)

lemma materialize_tags: "ev \<in> set (fst (materialize env dest idx isOpen e io)) \<Longrightarrow> fst ev = idx"
  by (auto simp add: materialize_def prepend_def abort_def Let_def
      split: EntryKind.splits option.splits)

lemma materialize_calls: "calls (fst (materialize env dest idx isOpen e io)) = []"
  by (auto simp add: materialize_def prepend_def abort_def Let_def calls_def
      split: EntryKind.splits option.splits)

lemma materialize_not_resolved: "snd (materialize env dest idx isOpen e io) \<noteq> Stop Resolved"
  by (auto simp add: materialize_def prepend_def abort_def Let_def
      split: EntryKind.splits option.splits)

lemma on_entry_tags: "ev \<in> set (fst (on_entry env params dest tot idx isOpen ei)) \<Longrightarrow> fst ev = idx"
  by (auto simp add: on_entry_def prepend_def dest: materialize_tags
      split: jsval.splits option.splits)

lemma on_entry_not_resolved: "snd (on_entry env params dest tot idx isOpen ei) \<noteq> Stop Resolved"
  by (auto simp add: on_entry_def prepend_def materialize_not_resolved
      split: jsval.splits option.splits)

lemma on_entry_head:
  assumes "getprop params ''onEntry'' = JFunction f"
  shows "\<exists>rest. fst (on_entry env params dest tot idx isOpen ei)
            = (idx, OnEntry (fileName (fst ei)) idx tot) # rest \<and> calls rest = []"
proof (cases "f (fileName (fst ei)) idx tot")
  case None
  with assms have "fst (on_entry env params dest tot idx isOpen ei)
      = (idx, OnEntry (fileName (fst ei)) idx tot)
        # fst (materialize env dest idx isOpen (fst ei) (snd ei))"
    by (simp add: on_entry_def prepend_def)
  then show ?thesis by (simp add: materialize_calls)
next
  case (Some err)
  with assms have "fst (on_entry env params dest tot idx isOpen ei)
      = (idx, OnEntry (fileName (fst ei)) idx tot) # [(idx, Reject err)]"
    by (simp add: on_entry_def)
  then show ?thesis by (simp add: calls_def)
qed

lemma deliver_Inr:
  assumes "deliver ei = Inr d"
  shows "d = ((fst ei)\<lparr>fileName := yauzl_fileName (fileName (fst ei))\<rparr>, snd ei)
       \<and> validateFileName (yauzl_fileName (fileName (fst ei))) = None
       \<and> header_err (snd ei) = None"
  using assms by (auto simp add: deliver_def split: option.splits)

text \<open>What \<^verbatim>\<open>zipfile.readEntry()\<close> does with the next record, case by case.\<close>

lemma readEntry_Cons_cases:
  obtains (refused) err where "deliver ei = Inl err"
      and "readEntry env params dest tot idx aborted (ei # es) = emitErrorAndAutoClose aborted err"
  | (advance) d evs where "deliver ei = Inr d"
      and "on_entry env params dest tot (Suc idx) (aborted = None) d = (evs, Advance)"
      and "readEntry env params dest tot idx aborted (ei # es)
           = (evs @ fst (readEntry env params dest tot (Suc idx) aborted es),
              snd (readEntry env params dest tot (Suc idx) aborted es))"
  | (abort) d evs err where "deliver ei = Inr d"
      and "on_entry env params dest tot (Suc idx) (aborted = None) d = (evs, AbortAdvance err)"
      and "readEntry env params dest tot idx aborted (ei # es)
           = (evs @ fst (readEntry env params dest tot (Suc idx)
                            (Some (case aborted of None \<Rightarrow> err | Some e \<Rightarrow> e)) es),
              snd (readEntry env params dest tot (Suc idx)
                     (Some (case aborted of None \<Rightarrow> err | Some e \<Rightarrow> e)) es))"
  | (stop) d evs out where "deliver ei = Inr d"
      and "on_entry env params dest tot (Suc idx) (aborted = None) d = (evs, Stop out)"
      and "readEntry env params dest tot idx aborted (ei # es) = (evs, settle aborted out)"
proof (cases "deliver ei")
  case (Inl err)
  then show ?thesis using refused by simp
next
  case (Inr d)
  obtain evs r where oe: "on_entry env params dest tot (Suc idx) (aborted = None) d = (evs, r)"
    by (cases "on_entry env params dest tot (Suc idx) (aborted = None) d")
  show ?thesis
  proof (cases r)
    case Advance
    with Inr oe show ?thesis using advance [of d evs] by (simp split: prod.splits)
  next
    case (AbortAdvance err)
    with Inr oe show ?thesis using abort [of d evs err] by (simp split: prod.splits)
  next
    case (Stop out)
    with Inr oe show ?thesis using stop [of d evs out] by simp
  qed
qed

lemma readEntry_aborted: "snd (readEntry env params dest tot idx (Some e) es) = Rejected e"
proof (induction es arbitrary: idx)
  case Nil
  show ?case by simp
next
  case (Cons ei es)
  show ?case
    by (cases rule: readEntry_Cons_cases [of ei env params dest tot idx "Some e" es])
      (simp_all add: emitErrorAndAutoClose_def settle_def Cons.IH)
qed

lemma extractZip_opens:
  assumes "opens_archive env params z"
  shows "extractZip env params =
    ([(0, ExistsSync (str (getprop params ''file''))), (0, IsFile (str (getprop params ''file''))),
      (0, YauzlOpen (str (getprop params ''file''))), (0, ReadEntry)]
       @ fst (readEntry env params (str (getprop params ''dest'')) (length z) 0 None z),
     snd (readEntry env params (str (getprop params ''dest'')) (length z) 0 None z))"
  using assms
  by (simp add: opens_archive_def extractZip_def nonEmptyString_iff entryCount_def Let_def
      split: prod.splits)

lemma readEntry_calls:
  assumes "getprop params ''onEntry'' = JFunction f"
  shows "prefix (calls (fst (readEntry env params dest tot idx aborted es)))
           (map (\<lambda>(i, ei). (yauzl_fileName (fileName (fst ei)), i, tot)) (enumerate (Suc idx) es))
       \<and> (snd (readEntry env params dest tot idx aborted es) = Resolved \<longrightarrow>
            calls (fst (readEntry env params dest tot idx aborted es))
              = map (\<lambda>(i, ei). (yauzl_fileName (fileName (fst ei)), i, tot)) (enumerate (Suc idx) es))"
proof (induction es arbitrary: idx aborted)
  case Nil
  show ?case by (simp add: calls_def split: option.splits)
next
  case (Cons ei es)
  show ?case
  proof (cases rule: readEntry_Cons_cases [of ei env params dest tot idx aborted es])
    case (refused err)
    then show ?thesis
      by (simp add: emitErrorAndAutoClose_def calls_def split: option.splits)
  next
    case (advance d evs)
    from on_entry_head [OF assms, of env dest tot "Suc idx" "aborted = None" d] advance(2)
      deliver_Inr [OF advance(1)]
    have c: "calls evs = [(yauzl_fileName (fileName (fst ei)), Suc idx, tot)]"
      by (auto simp add: calls_def)
    from Cons.IH [of "Suc idx" aborted] c show ?thesis
      unfolding advance(3) by (simp add: calls_append)
  next
    case (abort d evs err)
    from on_entry_head [OF assms, of env dest tot "Suc idx" "aborted = None" d] abort(2)
      deliver_Inr [OF abort(1)]
    have c: "calls evs = [(yauzl_fileName (fileName (fst ei)), Suc idx, tot)]"
      by (auto simp add: calls_def)
    from Cons.IH [of "Suc idx" "Some (case aborted of None \<Rightarrow> err | Some e \<Rightarrow> e)"] c
    show ?thesis
      unfolding abort(3) by (simp add: calls_append)
  next
    case (stop d evs out)
    from on_entry_head [OF assms, of env dest tot "Suc idx" "aborted = None" d] stop(2)
      deliver_Inr [OF stop(1)]
    have c: "calls evs = [(yauzl_fileName (fileName (fst ei)), Suc idx, tot)]"
      by (auto simp add: calls_def)
    have "out \<noteq> Resolved"
      using on_entry_not_resolved [of env params dest tot "Suc idx" "aborted = None" d] stop(2)
      by simp
    then have "settle aborted out \<noteq> Resolved"
      by (simp add: settle_def split: option.splits)
    with c show ?thesis unfolding stop(3) by simp
  qed
qed

lemma nth_Cons_shift:
  assumes "Suc idx < n"
  shows "(x # xs) ! (n - Suc idx) = xs ! (n - Suc (Suc idx))"
proof -
  have "n - Suc idx = Suc (n - Suc (Suc idx))" using assms by arith
  then show ?thesis by simp
qed

lemma readEntry_first_event:
  assumes "getprop params ''onEntry'' = JFunction f"
    and "idx < n" and "events_of n (fst (readEntry env params dest tot idx aborted es)) = ev # rest"
  shows "ev = (n, OnEntry (yauzl_fileName (fileName (fst (es ! (n - Suc idx))))) n tot)"
  using assms(2,3)
proof (induction es arbitrary: idx aborted)
  case Nil
  then show ?case by (simp add: events_of_def split: option.splits)
next
  case (Cons ei es)
  have handled: "ev = (n, OnEntry (yauzl_fileName (fileName (fst ((ei # es) ! (n - Suc idx))))) n tot)"
    if d: "deliver ei = Inr d"
      and r: "fst (readEntry env params dest tot idx aborted (ei # es)) = evs @ more"
      and oe: "fst (on_entry env params dest tot (Suc idx) (aborted = None) d) = evs"
      and ih: "Suc idx < n \<Longrightarrow> events_of n more = ev # rest \<Longrightarrow>
           ev = (n, OnEntry (yauzl_fileName (fileName (fst (es ! (n - Suc (Suc idx)))))) n tot)"
    for d evs more
  proof -
    have t: "\<And>x. x \<in> set evs \<Longrightarrow> fst x = Suc idx"
      using on_entry_tags [of _ env params dest tot "Suc idx" "aborted = None" d] oe by simp
    from on_entry_head [OF assms(1), of env dest tot "Suc idx" "aborted = None" d] oe
      deliver_Inr [OF d]
    obtain evs0 where h: "evs = (Suc idx, OnEntry (yauzl_fileName (fileName (fst ei))) (Suc idx) tot) # evs0"
      by auto
    show ?thesis
    proof (cases "n = Suc idx")
      case True
      from Cons.prems(2) r h True
      have "ev = (Suc idx, OnEntry (yauzl_fileName (fileName (fst ei))) (Suc idx) tot)"
        by (simp add: events_of_def)
      with True show ?thesis by simp
    next
      case False
      with Cons.prems(1) have lt: "Suc idx < n" by simp
      have "events_of n evs = []"
        using t lt by (auto simp add: events_of_def filter_empty_conv)
      with Cons.prems(2) r have "events_of n more = ev # rest"
        by (simp add: events_of_append)
      from ih [OF lt this] show ?thesis by (simp add: nth_Cons_shift [OF lt])
    qed
  qed
  show ?case
  proof (cases rule: readEntry_Cons_cases [of ei env params dest tot idx aborted es])
    case (refused err)
    with Cons.prems show ?thesis
      by (simp add: emitErrorAndAutoClose_def events_of_def split: option.splits)
  next
    case (advance d evs)
    have r: "fst (readEntry env params dest tot idx aborted (ei # es))
        = evs @ fst (readEntry env params dest tot (Suc idx) aborted es)"
      by (simp only: advance(3) fst_conv)
    have oe: "fst (on_entry env params dest tot (Suc idx) (aborted = None) d) = evs"
      by (simp only: advance(2) fst_conv)
    show ?thesis
      by (rule handled [OF advance(1) r oe]) (rule Cons.IH)
  next
    case (abort d evs err)
    have r: "fst (readEntry env params dest tot idx aborted (ei # es))
        = evs @ fst (readEntry env params dest tot (Suc idx)
                       (Some (case aborted of None \<Rightarrow> err | Some e \<Rightarrow> e)) es)"
      by (simp only: abort(3) fst_conv)
    have oe: "fst (on_entry env params dest tot (Suc idx) (aborted = None) d) = evs"
      by (simp only: abort(2) fst_conv)
    show ?thesis
      by (rule handled [OF abort(1) r oe]) (rule Cons.IH)
  next
    case (stop d evs out)
    have r: "fst (readEntry env params dest tot idx aborted (ei # es)) = evs @ []"
      by (simp only: stop(3) fst_conv append_Nil2)
    have oe: "fst (on_entry env params dest tot (Suc idx) (aborted = None) d) = evs"
      by (simp only: stop(2) fst_conv)
    show ?thesis
      by (rule handled [OF stop(1) r oe]) (simp add: events_of_def)
  qed
qed

lemma kind_e_file: "kind e_file = RegularFile"
  by code_simp

lemma kind_e_dir: "kind e_dir = Directory"
  by code_simp

lemma kind_e_link: "kind e_link = Symlink"
  by code_simp

lemma kind_e_zero: "kind e_zero = RegularFile"
  by code_simp

lemma opens_env_of: "opens_archive (env_of z) (params_cb ''/out'' ''a.zip'' cb) z"
  by (simp add: opens_archive_def params_cb_def env_of_def)

subsection \<open>Classification and materialization of one entry\<close>

lemma mask16: "(0xFFFF :: 32 word) = mask 16"
  by (simp add: mask_eq_exp_minus_1)

lemma signed_shift: "signed_drop_bit 16 (w :: 32 word) AND 0xFFFF = drop_bit 16 w AND 0xFFFF"
  unfolding mask16 by (rule bit_word_eqI) (auto simp add: bit_simps)

text \<open>
  C3. The mode is the upper half of the external attributes, whether the shift is the
  unsigned one of the code or a signed one. The entry is a symbolic link
  exactly when the type bits of the mode are \<open>S_IFLNK\<close>; otherwise a directory exactly
  when the type bits are \<open>S_IFDIR\<close> or the packer tag is 0 and the external attributes
  are 16; otherwise a regular file. For a directory the handler calls \<^verbatim>\<open>fs.mkdirp\<close> on
  the joined path and asks for the next entry: it opens no stream and writes no file.
\<close>

theorem entry_classification:
  "mode e = drop_bit 16 (externalFileAttributes e) AND 0xFFFF
   \<and> mode e = signed_drop_bit 16 (externalFileAttributes e) AND 0xFFFF
   \<and> (kind e = Symlink \<longleftrightarrow> mode e AND S_IFMT = S_IFLNK)
   \<and> (kind e = Directory \<longleftrightarrow>
        mode e AND S_IFMT \<noteq> S_IFLNK
        \<and> (mode e AND S_IFMT = S_IFDIR
           \<or> drop_bit 8 (versionMadeBy e) = 0 \<and> externalFileAttributes e = 16))
   \<and> (kind e = RegularFile \<longleftrightarrow>
        mode e AND S_IFMT \<noteq> S_IFLNK
        \<and> \<not> (mode e AND S_IFMT = S_IFDIR
           \<or> drop_bit 8 (versionMadeBy e) = 0 \<and> externalFileAttributes e = 16))
   \<and> (kind e = Directory \<longrightarrow>
        materialize env dest idx isOpen e io
          = ([(idx, Mkdirp (path_join dest (fileName e))), (idx, ReadEntry)], Advance))"
  by (auto simp add: kind_def symlink_def isDir_def madeBy_def mode_def materialize_def Let_def
      signed_shift)

theorem entry_classification_witness:
  "kind e_dir = Directory
   \<and> materialize (env_of archive3) ''/out'' 2 True e_dir io_ok
       = ([(2, Mkdirp ''/out/dir/''), (2, ReadEntry)], Advance)"
proof -
  have p: "path_join ''/out'' (fileName e_dir) = ''/out/dir/''" by code_simp
  from entry_classification [where e = e_dir and env = "env_of archive3" and dest = "''/out''"
      and idx = 2 and isOpen = True and io = io_ok] kind_e_dir
  have "materialize (env_of archive3) ''/out'' 2 True e_dir io_ok
       = ([(2, Mkdirp (path_join ''/out'' (fileName e_dir))), (2, ReadEntry)], Advance)"
    by blast
  with p kind_e_dir show ?thesis by simp
qed

text \<open>
  C6. A regular file whose stream opens (the archive is open and
  \<^verbatim>\<open>openReadStream\<close> does not fail) is created once, at the joined path: with mode
  0o644 (420) when the mode of the entry is 0, with the mode of the entry otherwise.
\<close>

theorem regular_file_mode:
  assumes "kind e = RegularFile" and "openReadStream_err io = None"
  shows "(mode e = 0 \<longrightarrow>
            created (fst (materialize env dest idx True e io)) = [(path_join dest (fileName e), 420)])
       \<and> (mode e \<noteq> 0 \<longrightarrow>
            created (fst (materialize env dest idx True e io)) = [(path_join dest (fileName e), mode e)])"
  using assms
  by (auto simp add: materialize_def created_def prepend_def abort_def fileMode_def Let_def
      openReadStream_def split: option.splits)

theorem regular_file_mode_witness:
  "kind e_zero = RegularFile \<and> mode e_zero = 0
   \<and> created (fst (materialize (env_of archive3) ''/out'' 1 True e_zero io_ok)) = [(''/out/b.bin'', 420)]
   \<and> kind e_file = RegularFile \<and> mode e_file = 0x81A4
   \<and> created (fst (materialize (env_of archive3) ''/out'' 1 True e_file io_ok)) = [(''/out/a.txt'', 0x81A4)]"
proof -
  have o: "openReadStream_err io_ok = None" by (simp add: io_ok_def)
  have m0: "mode e_zero = 0" by code_simp
  have m1: "mode e_file = 0x81A4" by code_simp
  have p0: "path_join ''/out'' (fileName e_zero) = ''/out/b.bin''" by code_simp
  have p1: "path_join ''/out'' (fileName e_file) = ''/out/a.txt''" by code_simp
  from regular_file_mode [OF kind_e_zero o, of "env_of archive3" "''/out''" 1] m0 p0
  have a: "created (fst (materialize (env_of archive3) ''/out'' 1 True e_zero io_ok)) = [(''/out/b.bin'', 420)]"
    by simp
  from regular_file_mode [OF kind_e_file o, of "env_of archive3" "''/out''" 1] m1 p1
  have b: "created (fst (materialize (env_of archive3) ''/out'' 1 True e_file io_ok)) = [(''/out/a.txt'', 0x81A4)]"
    by simp
  from a b m0 m1 kind_e_zero kind_e_file show ?thesis by simp
qed

text \<open>
  C7. For a symbolic link whose stream opens and ends without error the handler, in this
  order, makes the parent directory of the joined path, opens the stream of the entry,
  and calls \<^verbatim>\<open>fs.symlinkSync\<close> at the joined path with the target that is all the
  chunks of the stream, concatenated and decoded as UTF-8; then it asks for the next
  entry.
\<close>

theorem symlink_materialized:
  assumes "kind e = Symlink" and "openReadStream_err io = None" and "readStream_err io = None"
  shows "map snd (fst (materialize env dest idx True e io))
     = [Mkdirp (path_dirname (path_join dest (fileName e))),
        OpenReadStream (fileName e),
        SymlinkSync (toString_utf8 env (concat (chunks io))) (path_join dest (fileName e))]
       @ (if symlinkSync_err io = None then [ReadEntry] else [])"
  using assms
  by (auto simp add: materialize_def prepend_def Buffer_concat_def Let_def openReadStream_def
      split: option.splits)

theorem symlink_materialized_witness:
  "kind e_link = Symlink
   \<and> map snd (fst (materialize (env_of archive3) ''/out'' 3 True e_link io_ok))
     = [Mkdirp ''/out/dir'', OpenReadStream ''dir/link'',
        SymlinkSync ''../a'' ''/out/dir/link'', ReadEntry]"
proof -
  have o: "openReadStream_err io_ok = None" and r: "readStream_err io_ok = None"
    and s: "symlinkSync_err io_ok = None"
    by (simp_all add: io_ok_def)
  have p: "path_join ''/out'' (fileName e_link) = ''/out/dir/link''" by code_simp
  have d: "path_dirname ''/out/dir/link'' = ''/out/dir''" by code_simp
  have n: "fileName e_link = ''dir/link''" by (simp add: e_link_def)
  have t: "toString_utf8 (env_of archive3) (concat (chunks io_ok)) = ''../a''" by code_simp
  from symlink_materialized [OF kind_e_link o r, of "env_of archive3" "''/out''" 3] s p d n t
  have "map snd (fst (materialize (env_of archive3) ''/out'' 3 True e_link io_ok))
     = [Mkdirp ''/out/dir'', OpenReadStream ''dir/link'',
        SymlinkSync ''../a'' ''/out/dir/link'', ReadEntry]"
    by simp
  with kind_e_link show ?thesis by simp
qed

subsection \<open>The progress callback\<close>

text \<open>
  C5. When the archive opens and a callback is supplied, the invocations of the callback
  are an initial part of \<open>(name\<^sub>1, 1, N), \<dots>, (name\<^sub>N, N, N)\<close>, where \<open>N\<close> is the
  number of entries and \<open>name\<^sub>i\<close> the name yauzl gives entry \<open>i\<close>, and all of it
  when the extraction resolves: once per entry, the index rising from 1 to \<open>N\<close>, the
  total constant. Whatever the run does for entry \<open>n\<close>, the first thing is the
  invocation for \<open>n\<close>: it comes before any change of the file system for that entry.
\<close>

theorem progress_callback:
  assumes "opens_archive env params z" and "getprop params ''onEntry'' = JFunction f"
  shows "prefix (calls (fst (extractZip env params)))
           (map (\<lambda>(i, ei). (yauzl_fileName (fileName (fst ei)), i, length z)) (enumerate 1 z))
       \<and> (snd (extractZip env params) = Resolved \<longrightarrow>
            calls (fst (extractZip env params))
              = map (\<lambda>(i, ei). (yauzl_fileName (fileName (fst ei)), i, length z)) (enumerate 1 z))
       \<and> (\<forall>n ev rest. 0 < n \<and> events_of n (fst (extractZip env params)) = ev # rest \<longrightarrow>
            ev = (n, OnEntry (yauzl_fileName (fileName (fst (z ! (n - 1))))) n (length z)))"
proof -
  let ?d = "str (getprop params ''dest'')"
  let ?r = "readEntry env params ?d (length z) 0 None z"
  have c: "calls (fst (extractZip env params)) = calls (fst ?r)"
    by (simp add: extractZip_opens [OF assms(1)] calls_def)
  have o: "snd (extractZip env params) = snd ?r"
    by (simp add: extractZip_opens [OF assms(1)])
  have e: "\<And>n. 0 < n \<Longrightarrow> events_of n (fst (extractZip env params)) = events_of n (fst ?r)"
    by (simp add: extractZip_opens [OF assms(1)] events_of_def)
  from readEntry_calls [OF assms(2), of env ?d "length z" 0 None z] c o
  have 1: "prefix (calls (fst (extractZip env params)))
           (map (\<lambda>(i, ei). (yauzl_fileName (fileName (fst ei)), i, length z)) (enumerate 1 z))"
    and 2: "snd (extractZip env params) = Resolved \<longrightarrow>
            calls (fst (extractZip env params))
              = map (\<lambda>(i, ei). (yauzl_fileName (fileName (fst ei)), i, length z)) (enumerate 1 z)"
    by simp_all
  have 3: "\<forall>n ev rest. 0 < n \<and> events_of n (fst (extractZip env params)) = ev # rest \<longrightarrow>
            ev = (n, OnEntry (yauzl_fileName (fileName (fst (z ! (n - 1))))) n (length z))"
    using readEntry_first_event [OF assms(2), of 0 _ env ?d "length z" None z] e by auto
  from 1 2 3 show ?thesis by blast
qed

theorem progress_callback_witness:
  "opens_archive (env_of archive3) (params_cb ''/out'' ''a.zip'' (throws_at 0)) archive3
   \<and> snd (extractZip (env_of archive3) (params_cb ''/out'' ''a.zip'' (throws_at 0))) = Resolved
   \<and> calls (fst (extractZip (env_of archive3) (params_cb ''/out'' ''a.zip'' (throws_at 0))))
       = [(''a.txt'', 1, 3), (''dir/'', 2, 3), (''dir/link'', 3, 3)]"
proof -
  let ?P = "params_cb ''/out'' ''a.zip'' (throws_at 0)"
  have o: "opens_archive (env_of archive3) ?P archive3" by (rule opens_env_of)
  have f: "getprop ?P ''onEntry'' = JFunction (throws_at 0)" by (simp add: params_cb_def)
  have r: "snd (extractZip (env_of archive3) ?P) = Resolved" by code_simp
  have e: "map (\<lambda>(i, ei). (yauzl_fileName (fileName (fst ei)), i, length archive3)) (enumerate 1 archive3)
       = [(''a.txt'', 1, 3), (''dir/'', 2, 3), (''dir/link'', 3, 3)]"
    by code_simp
  from progress_callback [OF o f] r
  have "calls (fst (extractZip (env_of archive3) ?P))
       = map (\<lambda>(i, ei). (yauzl_fileName (fileName (fst ei)), i, length archive3)) (enumerate 1 archive3)"
    by blast
  with e r o show ?thesis by simp
qed

subsection \<open>Closing the archive, and going on after a failure\<close>

text \<open>
  C1. A run on the three entries with a callback that throws at the second one: the
  first entry is written and closed, the third is never reached, the promise rejects
  with the error of the callback, and the run does not call \<^verbatim>\<open>zipfile.close\<close>: the
  \<^verbatim>\<open>catch\<close> of line 126 calls \<^verbatim>\<open>reject\<close> where the other failures call
  \<^verbatim>\<open>abort\<close>.
\<close>

theorem callback_throw_leaves_archive_open:
  "extractZip (env_of archive3) (params_cb ''/out'' ''a.zip'' (throws_at 2))
     = ([(0, ExistsSync ''a.zip''), (0, IsFile ''a.zip''), (0, YauzlOpen ''a.zip''),
         (0, ReadEntry),
         (1, OnEntry ''a.txt'' 1 3), (1, Mkdirp ''/out''), (1, OpenReadStream ''a.txt''),
         (1, CreateWriteStream ''/out/a.txt'' 0x81A4), (1, WriteStreamClose ''/out/a.txt''),
         (1, ReadEntry),
         (2, OnEntry ''dir/'' 2 3), (2, Reject (Error ''boom''))],
        Rejected (Error ''boom''))"
  by code_simp

theorem callback_throw_leaves_archive_open_witness:
  "closes (fst (extractZip (env_of archive3) (params_cb ''/out'' ''a.zip'' (throws_at 2)))) = 0
   \<and> opened (fst (extractZip (env_of archive3) (params_cb ''/out'' ''a.zip'' (throws_at 2))))
   \<and> snd (extractZip (env_of archive3) (params_cb ''/out'' ''a.zip'' (throws_at 2)))
       = Rejected (Error ''boom'')"
  using callback_throw_leaves_archive_open by (simp add: closes_def opened_def)

text \<open>
  C9. A run on a file whose write stream fails, followed by a directory: the
  \<^verbatim>\<open>error\<close> of the stream runs \<^verbatim>\<open>abort\<close>, which rejects the promise, and the
  \<^verbatim>\<open>close\<close> that follows runs the listener of line 177, which asks for the next
  entry. The directory of the second entry is made although the first entry failed.
\<close>

theorem write_error_advances:
  "extractZip (env_of archive_write_fails) (params_cb ''/out'' ''a.zip'' (throws_at 0))
     = ([(0, ExistsSync ''a.zip''), (0, IsFile ''a.zip''), (0, YauzlOpen ''a.zip''),
         (0, ReadEntry),
         (1, OnEntry ''a.txt'' 1 2), (1, Mkdirp ''/out''), (1, OpenReadStream ''a.txt''),
         (1, CreateWriteStream ''/out/a.txt'' 0x81A4),
         (1, RemoveEndListener), (1, ZipfileClose), (1, Reject (Error ''ENOSPC'')),
         (1, WriteStreamClose ''/out/a.txt''), (1, ReadEntry),
         (2, OnEntry ''dir/'' 2 2), (2, Mkdirp ''/out/dir/''), (2, ReadEntry)],
        Rejected (Error ''ENOSPC''))"
  by code_simp

theorem write_error_advances_witness:
  "writeStream_err (snd (archive_write_fails ! 0)) = Some (Error ''ENOSPC'')
   \<and> (2, Mkdirp ''/out/dir/'')
       \<in> set (fst (extractZip (env_of archive_write_fails) (params_cb ''/out'' ''a.zip'' (throws_at 0))))
   \<and> snd (extractZip (env_of archive_write_fails) (params_cb ''/out'' ''a.zip'' (throws_at 0)))
       = Rejected (Error ''ENOSPC'')"
proof -
  have "writeStream_err (snd (archive_write_fails ! 0)) = Some (Error ''ENOSPC'')"
    by (simp add: archive_write_fails_def)
  with write_error_advances show ?thesis by simp
qed

subsection \<open>Where an entry is materialized\<close>
































text \<open>
  The archive whose only record is named \<^verbatim>\<open>../../escape.txt\<close>: yauzl closes the
  archive and emits the error instead of the entry; the run touches no path.
\<close>

lemma escape_is_refused:
  "extractZip (env_of [(e_escape, io_ok)]) (params_of ''/out'' ''a.zip'')
     = ([(0, ExistsSync ''a.zip''), (0, IsFile ''a.zip''), (0, YauzlOpen ''a.zip''),
         (0, ReadEntry), (0, ZipfileClose)],
        Uncaught (Error ''invalid relative path: ../../escape.txt''))"
  by code_simp

subsection \<open>Which errors reach the caller\<close>

lemma materialize_mkdirp_err:
  "materialize env dest idx isOpen e (io\<lparr>mkdirp_err := x\<rparr>) = materialize env dest idx isOpen e io"
  by (cases "kind e") (simp_all add: materialize_def Let_def openReadStream_def split: option.splits)

lemma on_entry_mkdirp_err:
  "on_entry env params dest tot idx isOpen (fst d, (snd d)\<lparr>mkdirp_err := x\<rparr>)
     = on_entry env params dest tot idx isOpen d"
  by (simp add: on_entry_def materialize_mkdirp_err split: jsval.splits option.splits)

lemma deliver_mkdirp_err:
  "deliver (fst ei, (snd ei)\<lparr>mkdirp_err := x\<rparr>)
     = (case deliver ei of Inl err \<Rightarrow> Inl err | Inr d \<Rightarrow> Inr (fst d, (snd d)\<lparr>mkdirp_err := x\<rparr>))"
  by (simp add: deliver_def split: option.splits)

lemma readEntry_mkdirp_failing:
  "readEntry env params dest tot idx aborted (mkdirp_failing x es)
     = readEntry env params dest tot idx aborted es"
  unfolding mkdirp_failing_def
proof (induction es arbitrary: idx aborted)
  case Nil
  show ?case by simp
next
  case (Cons ei es)
  show ?case
    by (cases "deliver ei") (simp_all add: deliver_mkdirp_err on_entry_mkdirp_err Cons.IH)
qed

lemma materialize_env:
  "materialize (env\<lparr>yauzl_open := y\<rparr>) dest idx isOpen e io = materialize env dest idx isOpen e io"
  by (cases "kind e") (simp_all add: materialize_def Let_def split: option.splits)

lemma on_entry_env:
  "on_entry (env\<lparr>yauzl_open := y\<rparr>) params dest tot idx isOpen ei
     = on_entry env params dest tot idx isOpen ei"
  by (simp add: on_entry_def materialize_env split: jsval.splits option.splits)

lemma readEntry_env:
  "readEntry (env\<lparr>yauzl_open := y\<rparr>) params dest tot idx aborted es
     = readEntry env params dest tot idx aborted es"
proof (induction es arbitrary: idx aborted)
  case Nil
  show ?case by simp
next
  case (Cons ei es)
  show ?case
    by (cases "deliver ei") (simp_all add: on_entry_env Cons.IH)
qed

lemma materialize_raises:
  assumes "kind e \<noteq> Directory \<and> openReadStream_err io = Some x
         \<or> kind e = Symlink \<and> readStream_err io = Some x
         \<or> kind e = RegularFile \<and> writeStream_err io = Some x"
  shows "snd (materialize env dest idx True e io) \<noteq> Advance"
  using assms
  by (cases "kind e"; cases "openReadStream_err io"; cases "readStream_err io";
      cases "writeStream_err io"; cases "symlinkSync_err io")
     (auto simp add: materialize_def prepend_def abort_def Let_def openReadStream_def)

lemma on_entry_raises:
  assumes "raises params tot n ei x"
  shows "snd (on_entry env params dest tot n True ei) \<noteq> Advance"
proof (cases "\<exists>f. getprop params ''onEntry'' = JFunction f \<and> f (fileName (fst ei)) n tot = Some x")
  case True
  then show ?thesis by (auto simp add: on_entry_def)
next
  case False
  with assms have "kind (fst ei) \<noteq> Directory \<and> openReadStream_err (snd ei) = Some x
         \<or> kind (fst ei) = Symlink \<and> readStream_err (snd ei) = Some x
         \<or> kind (fst ei) = RegularFile \<and> writeStream_err (snd ei) = Some x"
    by (auto simp add: raises_def split: jsval.splits)
  from materialize_raises [OF this] show ?thesis
    by (auto simp add: on_entry_def prepend_def split: jsval.splits option.splits)
qed

lemma materialize_advance_clean:
  assumes "snd (materialize env dest idx isOpen e io) = Advance"
    and "ev \<in> set (fst (materialize env dest idx isOpen e io))"
  shows "\<not> is_reject (snd ev)"
  using assms
  by (cases "kind e"; cases "openReadStream isOpen io"; cases "readStream_err io";
      cases "writeStream_err io"; cases "symlinkSync_err io")
     (auto simp add: materialize_def prepend_def abort_def Let_def)

lemma materialize_abort_advance:
  assumes "snd (materialize env dest idx isOpen e io) = AbortAdvance x"
  shows "isOpen \<and> kind e = RegularFile \<and> writeStream_err io = Some x
       \<and> (\<exists>pre post. fst (materialize env dest idx isOpen e io) = pre @ (idx, Reject x) # post
             \<and> (\<forall>ev\<in>set pre. \<not> is_reject (snd ev)))"
proof -
  from assms have k: "kind e = RegularFile" and o: "openReadStream isOpen io = None"
    and w: "writeStream_err io = Some x" and r: "readStream_err io = None"
    by (cases "kind e"; cases "openReadStream isOpen io"; cases "readStream_err io";
        cases "writeStream_err io"; cases "symlinkSync_err io";
        simp add: materialize_def prepend_def abort_def Let_def)+
  from o have "isOpen" by (simp add: openReadStream_def split: if_splits)
  moreover have "fst (materialize env dest idx isOpen e io)
      = [(idx, Mkdirp (path_dirname (path_join dest (fileName e)))),
         (idx, OpenReadStream (fileName e)),
         (idx, CreateWriteStream (path_join dest (fileName e)) (fileMode e)),
         (idx, RemoveEndListener), (idx, ZipfileClose)]
        @ (idx, Reject x)
        # [(idx, WriteStreamClose (path_join dest (fileName e))), (idx, ReadEntry)]"
    using k o w r by (simp add: materialize_def prepend_def abort_def Let_def)
  then have "\<exists>pre post. fst (materialize env dest idx isOpen e io) = pre @ (idx, Reject x) # post
             \<and> (\<forall>ev\<in>set pre. \<not> is_reject (snd ev))"
    by (intro exI [of _ "[(idx, Mkdirp (path_dirname (path_join dest (fileName e)))),
         (idx, OpenReadStream (fileName e)),
         (idx, CreateWriteStream (path_join dest (fileName e)) (fileMode e)),
         (idx, RemoveEndListener), (idx, ZipfileClose)]"]
        exI [of _ "[(idx, WriteStreamClose (path_join dest (fileName e))), (idx, ReadEntry)]"])
      simp
  ultimately show ?thesis using k w by simp
qed

lemma materialize_rejected:
  assumes "snd (materialize env dest idx True e io) = Stop (Rejected x)"
  shows "(kind e \<noteq> Directory \<and> openReadStream_err io = Some x
         \<or> kind e = Symlink \<and> readStream_err io = Some x)
       \<and> (\<exists>pre. fst (materialize env dest idx True e io) = pre @ [(idx, Reject x)]
             \<and> (\<forall>ev\<in>set pre. \<not> is_reject (snd ev)))"
proof -
  have "fst (materialize env dest idx True e io)
      = [(idx, Mkdirp (path_dirname (path_join dest (fileName e)))),
         (idx, OpenReadStream (fileName e)), (idx, RemoveEndListener), (idx, ZipfileClose)]
        @ [(idx, Reject x)]
    \<and> (kind e \<noteq> Directory \<and> openReadStream_err io = Some x
         \<or> kind e = Symlink \<and> readStream_err io = Some x)"
    using assms
    by (cases "kind e"; cases "openReadStream_err io"; cases "readStream_err io";
        cases "writeStream_err io"; cases "symlinkSync_err io")
      (auto simp add: materialize_def prepend_def abort_def Let_def openReadStream_def)
  then show ?thesis
    by (intro conjI exI [of _ "[(idx, Mkdirp (path_dirname (path_join dest (fileName e)))),
         (idx, OpenReadStream (fileName e)), (idx, RemoveEndListener), (idx, ZipfileClose)]"])
      simp_all
qed

text \<open>What the handler of one entry does, by the way it ends.\<close>

lemma on_entry_cases:
  obtains (threw) f err where "getprop params ''onEntry'' = JFunction f"
      and "f (fileName (fst ei)) idx tot = Some err"
      and "on_entry env params dest tot idx isOpen ei
           = ([(idx, OnEntry (fileName (fst ei)) idx tot), (idx, Reject err)], Stop (Rejected err))"
  | (called) f where "getprop params ''onEntry'' = JFunction f"
      and "f (fileName (fst ei)) idx tot = None"
      and "on_entry env params dest tot idx isOpen ei
           = ((idx, OnEntry (fileName (fst ei)) idx tot)
                # fst (materialize env dest idx isOpen (fst ei) (snd ei)),
              snd (materialize env dest idx isOpen (fst ei) (snd ei)))"
  | (silent) "\<forall>f. getprop params ''onEntry'' \<noteq> JFunction f"
      and "on_entry env params dest tot idx isOpen ei
           = materialize env dest idx isOpen (fst ei) (snd ei)"
proof (cases "getprop params ''onEntry''")
  case (JFunction f)
  show ?thesis
  proof (cases "f (fileName (fst ei)) idx tot")
    case None
    with JFunction show ?thesis using called [of f] by (simp add: on_entry_def prepend_def)
  next
    case (Some err)
    with JFunction show ?thesis using threw [of f err] by (simp add: on_entry_def)
  qed
qed (use silent in \<open>simp_all add: on_entry_def\<close>)

lemma on_entry_advance_clean:
  assumes "on_entry env params dest tot idx isOpen ei = (evs, Advance)" and "ev \<in> set evs"
  shows "\<not> is_reject (snd ev)"
proof (cases rule: on_entry_cases [of params ei idx tot env dest isOpen])
  case (threw f err)
  with assms show ?thesis by simp
next
  case (called f)
  with assms have a: "snd (materialize env dest idx isOpen (fst ei) (snd ei)) = Advance"
    and "ev = (idx, OnEntry (fileName (fst ei)) idx tot)
       \<or> ev \<in> set (fst (materialize env dest idx isOpen (fst ei) (snd ei)))"
    by auto
  then show ?thesis using materialize_advance_clean [OF a, of ev] by auto
next
  case silent
  with assms have a: "snd (materialize env dest idx isOpen (fst ei) (snd ei)) = Advance"
    and "ev \<in> set (fst (materialize env dest idx isOpen (fst ei) (snd ei)))"
    by auto
  then show ?thesis using materialize_advance_clean [OF a, of ev] by simp
qed

lemma on_entry_abort_advance:
  assumes "on_entry env params dest tot idx isOpen ei = (evs, AbortAdvance x)"
  shows "isOpen \<and> raises params tot idx ei x
       \<and> kind (fst ei) = RegularFile \<and> writeStream_err (snd ei) = Some x
       \<and> (\<exists>pre post. evs = pre @ (idx, Reject x) # post \<and> (\<forall>ev\<in>set pre. \<not> is_reject (snd ev)))"
proof (cases rule: on_entry_cases [of params ei idx tot env dest isOpen])
  case (threw f err)
  with assms show ?thesis by simp
next
  case (called f)
  with assms have a: "snd (materialize env dest idx isOpen (fst ei) (snd ei)) = AbortAdvance x"
    and e: "evs = (idx, OnEntry (fileName (fst ei)) idx tot)
                # fst (materialize env dest idx isOpen (fst ei) (snd ei))"
    by auto
  from materialize_abort_advance [OF a] obtain pre post where
    m: "isOpen" "kind (fst ei) = RegularFile" "writeStream_err (snd ei) = Some x"
    and p: "fst (materialize env dest idx isOpen (fst ei) (snd ei)) = pre @ (idx, Reject x) # post"
    and c: "\<forall>ev\<in>set pre. \<not> is_reject (snd ev)" by blast
  have "evs = ((idx, OnEntry (fileName (fst ei)) idx tot) # pre) @ (idx, Reject x) # post"
    using e p by simp
  moreover have "\<forall>ev\<in>set ((idx, OnEntry (fileName (fst ei)) idx tot) # pre). \<not> is_reject (snd ev)"
    using c by simp
  ultimately have "\<exists>pre post. evs = pre @ (idx, Reject x) # post \<and> (\<forall>ev\<in>set pre. \<not> is_reject (snd ev))"
    by blast
  with m show ?thesis by (simp add: raises_def)
next
  case silent
  with assms have a: "snd (materialize env dest idx isOpen (fst ei) (snd ei)) = AbortAdvance x"
    and e: "evs = fst (materialize env dest idx isOpen (fst ei) (snd ei))"
    by auto
  from materialize_abort_advance [OF a] obtain pre post where
    m: "isOpen" "kind (fst ei) = RegularFile" "writeStream_err (snd ei) = Some x"
    and p: "fst (materialize env dest idx isOpen (fst ei) (snd ei)) = pre @ (idx, Reject x) # post"
    and c: "\<forall>ev\<in>set pre. \<not> is_reject (snd ev)" by blast
  from e p c have "\<exists>pre post. evs = pre @ (idx, Reject x) # post \<and> (\<forall>ev\<in>set pre. \<not> is_reject (snd ev))"
    by blast
  with m show ?thesis by (simp add: raises_def)
qed

lemma on_entry_rejected:
  assumes "on_entry env params dest tot idx True ei = (evs, Stop (Rejected x))"
  shows "raises params tot idx ei x
       \<and> (\<exists>pre. evs = pre @ [(idx, Reject x)] \<and> (\<forall>ev\<in>set pre. \<not> is_reject (snd ev)))"
proof (cases rule: on_entry_cases [of params ei idx tot env dest True])
  case (threw f err)
  with assms have x: "err = x" and e: "evs = [(idx, OnEntry (fileName (fst ei)) idx tot)] @ [(idx, Reject x)]"
    by auto
  from threw x have "raises params tot idx ei x" by (simp add: raises_def)
  moreover have "\<forall>ev\<in>set [(idx, OnEntry (fileName (fst ei)) idx tot)]. \<not> is_reject (snd ev)"
    by simp
  ultimately show ?thesis using e by blast
next
  case (called f)
  with assms have a: "snd (materialize env dest idx True (fst ei) (snd ei)) = Stop (Rejected x)"
    and e: "evs = (idx, OnEntry (fileName (fst ei)) idx tot)
                # fst (materialize env dest idx True (fst ei) (snd ei))"
    by auto
  from materialize_rejected [OF a] obtain pre where
    m: "kind (fst ei) \<noteq> Directory \<and> openReadStream_err (snd ei) = Some x
         \<or> kind (fst ei) = Symlink \<and> readStream_err (snd ei) = Some x"
    and p: "fst (materialize env dest idx True (fst ei) (snd ei)) = pre @ [(idx, Reject x)]"
    and c: "\<forall>ev\<in>set pre. \<not> is_reject (snd ev)" by blast
  have "evs = ((idx, OnEntry (fileName (fst ei)) idx tot) # pre) @ [(idx, Reject x)]"
    using e p by simp
  moreover have "\<forall>ev\<in>set ((idx, OnEntry (fileName (fst ei)) idx tot) # pre). \<not> is_reject (snd ev)"
    using c by simp
  ultimately have "\<exists>pre. evs = pre @ [(idx, Reject x)] \<and> (\<forall>ev\<in>set pre. \<not> is_reject (snd ev))"
    by blast
  moreover from m have "raises params tot idx ei x" by (auto simp add: raises_def)
  ultimately show ?thesis by simp
next
  case silent
  with assms have a: "snd (materialize env dest idx True (fst ei) (snd ei)) = Stop (Rejected x)"
    and e: "evs = fst (materialize env dest idx True (fst ei) (snd ei))"
    by auto
  from materialize_rejected [OF a] e show ?thesis by (auto simp add: raises_def)
qed

lemma readEntry_resolved:
  assumes "snd (readEntry env params dest tot idx aborted es) = Resolved" and "i < length es"
  shows "\<exists>d. deliver (es ! i) = Inr d \<and> (\<forall>x. \<not> raises params tot (Suc (idx + i)) d x)"
  using assms
proof (induction es arbitrary: idx i)
  case Nil
  then show ?case by simp
next
  case (Cons ei es)
  have op: "aborted = None"
  proof (cases aborted)
    case (Some e)
    with Cons.prems(1) readEntry_aborted [of env params dest tot idx e "ei # es"]
    show ?thesis by simp
  qed
  show ?case
  proof (cases rule: readEntry_Cons_cases [of ei env params dest tot idx aborted es])
    case (refused err)
    with Cons.prems(1) show ?thesis
      by (simp add: emitErrorAndAutoClose_def split: option.splits)
  next
    case (advance d evs)
    show ?thesis
    proof (cases i)
      case 0
      have "\<forall>x. \<not> raises params tot (Suc idx) d x"
        using on_entry_raises [of params tot "Suc idx" d _ env dest] advance(2) op by auto
      with advance(1) 0 show ?thesis by simp
    next
      case (Suc j)
      from Cons.prems(1) have "snd (readEntry env params dest tot (Suc idx) aborted es) = Resolved"
        by (simp only: advance(3) snd_conv)
      from Cons.IH [OF this, of j] Cons.prems(2) Suc show ?thesis by simp
    qed
  next
    case (abort d evs err)
    from Cons.prems(1)
    have "snd (readEntry env params dest tot (Suc idx)
                 (Some (case aborted of None \<Rightarrow> err | Some e \<Rightarrow> e)) es) = Resolved"
      by (simp only: abort(3) snd_conv)
    then show ?thesis by (simp add: readEntry_aborted)
  next
    case (stop d evs out)
    from Cons.prems(1) have "settle aborted out = Resolved"
      by (simp only: stop(3) snd_conv)
    with op have "out = Resolved" by (simp add: settle_def)
    with on_entry_not_resolved [of env params dest tot "Suc idx" "aborted = None" d] stop(2)
    show ?thesis by simp
  qed
qed

lemma readEntry_rejected:
  assumes "snd (readEntry env params dest tot idx None es) = Rejected x"
  shows "\<exists>n d pre post. idx < n \<and> n \<le> idx + length es
           \<and> deliver (es ! (n - Suc idx)) = Inr d \<and> raises params tot n d x
           \<and> fst (readEntry env params dest tot idx None es) = pre @ (n, Reject x) # post
           \<and> (\<forall>ev\<in>set pre. fst ev \<le> n \<and> \<not> is_reject (snd ev))
           \<and> (kind (fst d) \<noteq> RegularFile \<or> writeStream_err (snd d) = None \<longrightarrow> post = [])"
  using assms
proof (induction es arbitrary: idx)
  case Nil
  then show ?case by simp
next
  case (Cons ei es)
  show ?case
  proof (cases rule: readEntry_Cons_cases [of ei env params dest tot idx None es])
    case (refused err)
    with Cons.prems show ?thesis by (simp add: emitErrorAndAutoClose_def)
  next
    case (advance d evs)
    have t: "\<And>ev. ev \<in> set evs \<Longrightarrow> fst ev = Suc idx"
      using on_entry_tags [of _ env params dest tot "Suc idx" "None = None" d] advance(2) by simp
    have c: "\<And>ev. ev \<in> set evs \<Longrightarrow> \<not> is_reject (snd ev)"
      using on_entry_advance_clean [OF advance(2)] by simp
    from Cons.prems have "snd (readEntry env params dest tot (Suc idx) None es) = Rejected x"
      by (simp only: advance(3) snd_conv)
    from Cons.IH [OF this] obtain n d' pre post where
      n: "Suc idx < n" "n \<le> Suc idx + length es"
      and dl: "deliver (es ! (n - Suc (Suc idx))) = Inr d'" and ra: "raises params tot n d' x"
      and p: "fst (readEntry env params dest tot (Suc idx) None es) = pre @ (n, Reject x) # post"
      and b: "\<forall>ev\<in>set pre. fst ev \<le> n \<and> \<not> is_reject (snd ev)"
      and l: "kind (fst d') \<noteq> RegularFile \<or> writeStream_err (snd d') = None \<longrightarrow> post = []"
      by (elim exE conjE) (rule that)
    have tr: "fst (readEntry env params dest tot idx None (ei # es)) = (evs @ pre) @ (n, Reject x) # post"
      by (simp only: advance(3) fst_conv p append_assoc)
    have b': "\<forall>ev\<in>set (evs @ pre). fst ev \<le> n \<and> \<not> is_reject (snd ev)"
      using t c b n(1) by auto
    from n dl ra tr b' l show ?thesis
      by (intro exI [of _ n] exI [of _ d'] exI [of _ "evs @ pre"] exI [of _ post])
        (simp add: nth_Cons_shift [OF n(1)])
  next
    case (abort d evs err)
    from Cons.prems have "x = err"
      by (simp only: abort(3) snd_conv) (simp add: readEntry_aborted)
    from on_entry_abort_advance [OF abort(2)] this obtain pre post where
      ra: "raises params tot (Suc idx) d x"
      and k: "kind (fst d) = RegularFile" "writeStream_err (snd d) = Some x"
      and p: "evs = pre @ (Suc idx, Reject x) # post"
      and c: "\<forall>ev\<in>set pre. \<not> is_reject (snd ev)" by blast
    have t: "\<And>ev. ev \<in> set evs \<Longrightarrow> fst ev = Suc idx"
      using on_entry_tags [of _ env params dest tot "Suc idx" "None = None" d] abort(2) by simp
    have b: "\<forall>ev\<in>set pre. fst ev \<le> Suc idx \<and> \<not> is_reject (snd ev)"
      using t c p by auto
    have tr: "fst (readEntry env params dest tot idx None (ei # es))
        = pre @ (Suc idx, Reject x)
          # (post @ fst (readEntry env params dest tot (Suc idx)
                           (Some (case None of None \<Rightarrow> err | Some e \<Rightarrow> e)) es))"
      by (simp only: abort(3) fst_conv p append_assoc append_Cons)
    from abort(1) ra tr b k show ?thesis
      by (intro exI [of _ "Suc idx"] exI [of _ d] exI [of _ pre]
          exI [of _ "post @ fst (readEntry env params dest tot (Suc idx)
                           (Some (case None of None \<Rightarrow> err | Some e \<Rightarrow> e)) es)"])
        simp
  next
    case (stop d evs out)
    from Cons.prems have "out = Rejected x"
      by (simp only: stop(3) snd_conv) (simp add: settle_def)
    with stop(2) have oe: "on_entry env params dest tot (Suc idx) True d = (evs, Stop (Rejected x))"
      by simp
    from on_entry_rejected [OF oe] obtain pre where
      ra: "raises params tot (Suc idx) d x" and p: "evs = pre @ [(Suc idx, Reject x)]"
      and c: "\<forall>ev\<in>set pre. \<not> is_reject (snd ev)" by blast
    have t: "\<And>ev. ev \<in> set evs \<Longrightarrow> fst ev = Suc idx"
      using on_entry_tags [of _ env params dest tot "Suc idx" True d] oe by simp
    have b: "\<forall>ev\<in>set pre. fst ev \<le> Suc idx \<and> \<not> is_reject (snd ev)"
      using t c p by auto
    have tr: "fst (readEntry env params dest tot idx None (ei # es)) = pre @ (Suc idx, Reject x) # []"
      by (simp only: stop(3) fst_conv p)
    from stop(1) ra tr b show ?thesis
      by (intro exI [of _ "Suc idx"] exI [of _ d] exI [of _ pre] exI [of _ "[]"]) simp
  qed
qed

lemma length_mkdirp_failing: "length (mkdirp_failing m z) = length z"
  by (simp add: mkdirp_failing_def)

lemma opens_archive_mkdirp_failing:
  assumes "opens_archive env params z"
  shows "opens_archive (env\<lparr>yauzl_open := \<lambda>p. Inr (mkdirp_failing m z)\<rparr>) params (mkdirp_failing m z)"
  using assms by (simp add: opens_archive_def)

text \<open>
  C4, as the code has it. The callbacks of \<^verbatim>\<open>fs.mkdirp\<close> take no error argument:
  a run is the same whatever \<^verbatim>\<open>fs.mkdirp\<close> answers. An error of the progress
  callback, of \<^verbatim>\<open>openReadStream\<close>, of the read stream of a link or of the write
  stream of a file is not swallowed and not retried: a run resolves only if yauzl emitted
  every entry and none of them raised such an error; and when the promise is rejected
  with \<open>x\<close>, then \<open>x\<close> is such an error raised by an entry \<open>n\<close>, no call of
  \<^verbatim>\<open>reject\<close> and no event of a later entry comes before that rejection, and, unless
  it is the write stream of a file that failed, the run ends with it.
\<close>

theorem errors_surfaced_except_mkdirp:
  assumes "opens_archive env params z"
  shows "extractZip (env\<lparr>yauzl_open := \<lambda>p. Inr (mkdirp_failing m z)\<rparr>) params = extractZip env params
       \<and> (snd (extractZip env params) = Resolved \<longrightarrow>
            (\<forall>i<length z. \<exists>d. deliver (z ! i) = Inr d
                \<and> (\<forall>x. \<not> raises params (length z) (Suc i) d x)))
       \<and> (\<forall>x. snd (extractZip env params) = Rejected x \<longrightarrow>
            (\<exists>n d pre post. 0 < n \<and> n \<le> length z
               \<and> deliver (z ! (n - 1)) = Inr d \<and> raises params (length z) n d x
               \<and> fst (extractZip env params) = pre @ (n, Reject x) # post
               \<and> (\<forall>ev\<in>set pre. fst ev \<le> n \<and> \<not> is_reject (snd ev))
               \<and> (kind (fst d) \<noteq> RegularFile \<or> writeStream_err (snd d) = None \<longrightarrow> post = [])))"
proof -
  let ?d = "str (getprop params ''dest'')"
  let ?f = "str (getprop params ''file'')"
  let ?r = "readEntry env params ?d (length z) 0 None z"
  let ?p = "[(0, ExistsSync ?f), (0, IsFile ?f), (0, YauzlOpen ?f), (0::nat, ReadEntry)]"
  have ez: "extractZip env params = (?p @ fst ?r, snd ?r)"
    by (rule extractZip_opens [OF assms])
  have 1: "extractZip (env\<lparr>yauzl_open := \<lambda>p. Inr (mkdirp_failing m z)\<rparr>) params = extractZip env params"
    unfolding ez extractZip_opens [OF opens_archive_mkdirp_failing [OF assms, of m]]
    by (simp add: readEntry_env readEntry_mkdirp_failing length_mkdirp_failing)
  have 2: "snd (extractZip env params) = Resolved \<longrightarrow>
            (\<forall>i<length z. \<exists>d. deliver (z ! i) = Inr d
                \<and> (\<forall>x. \<not> raises params (length z) (Suc i) d x))"
    using readEntry_resolved [of env params ?d "length z" 0 None z] ez by simp
  have 3: "\<forall>x. snd (extractZip env params) = Rejected x \<longrightarrow>
            (\<exists>n d pre post. 0 < n \<and> n \<le> length z
               \<and> deliver (z ! (n - 1)) = Inr d \<and> raises params (length z) n d x
               \<and> fst (extractZip env params) = pre @ (n, Reject x) # post
               \<and> (\<forall>ev\<in>set pre. fst ev \<le> n \<and> \<not> is_reject (snd ev))
               \<and> (kind (fst d) \<noteq> RegularFile \<or> writeStream_err (snd d) = None \<longrightarrow> post = []))"
  proof (intro allI impI)
    fix x assume "snd (extractZip env params) = Rejected x"
    then have "snd ?r = Rejected x" using ez by simp
    from readEntry_rejected [OF this] obtain n d pre post where
      n: "0 < n" "n \<le> length z" and dl: "deliver (z ! (n - Suc 0)) = Inr d"
      and ra: "raises params (length z) n d x"
      and p: "fst ?r = pre @ (n, Reject x) # post"
      and b: "\<forall>ev\<in>set pre. fst ev \<le> n \<and> \<not> is_reject (snd ev)"
      and l: "kind (fst d) \<noteq> RegularFile \<or> writeStream_err (snd d) = None \<longrightarrow> post = []"
      by (elim exE conjE) (rule that, simp_all)
    have "fst (extractZip env params) = (?p @ pre) @ (n, Reject x) # post"
      using ez p by simp
    moreover have "\<forall>ev\<in>set (?p @ pre). fst ev \<le> n \<and> \<not> is_reject (snd ev)" using b by simp
    ultimately show "\<exists>n d pre post. 0 < n \<and> n \<le> length z
               \<and> deliver (z ! (n - 1)) = Inr d \<and> raises params (length z) n d x
               \<and> fst (extractZip env params) = pre @ (n, Reject x) # post
               \<and> (\<forall>ev\<in>set pre. fst ev \<le> n \<and> \<not> is_reject (snd ev))
               \<and> (kind (fst d) \<noteq> RegularFile \<or> writeStream_err (snd d) = None \<longrightarrow> post = [])"
      using n dl ra l
      by (intro exI [of _ n] exI [of _ d] exI [of _ "?p @ pre"] exI [of _ post]) simp
  qed
  from 1 2 3 show ?thesis by blast
qed

theorem errors_surfaced_except_mkdirp_witness:
  "opens_archive (env_of archive_open_fails) (params_cb ''/out'' ''a.zip'' (throws_at 0))
     archive_open_fails
   \<and> extractZip ((env_of archive_open_fails)
         \<lparr>yauzl_open := \<lambda>p. Inr (mkdirp_failing (Some (Error ''EACCES'')) archive_open_fails)\<rparr>)
         (params_cb ''/out'' ''a.zip'' (throws_at 0))
       = extractZip (env_of archive_open_fails) (params_cb ''/out'' ''a.zip'' (throws_at 0))
   \<and> snd (extractZip (env_of archive_open_fails) (params_cb ''/out'' ''a.zip'' (throws_at 0)))
       = Rejected (Error ''EIO'')
   \<and> (\<exists>n d pre post. 0 < n \<and> n \<le> length archive_open_fails
         \<and> deliver (archive_open_fails ! (n - 1)) = Inr d
         \<and> raises (params_cb ''/out'' ''a.zip'' (throws_at 0)) (length archive_open_fails) n d
              (Error ''EIO'')
         \<and> fst (extractZip (env_of archive_open_fails) (params_cb ''/out'' ''a.zip'' (throws_at 0)))
              = pre @ (n, Reject (Error ''EIO'')) # post
         \<and> (\<forall>ev\<in>set pre. fst ev \<le> n \<and> \<not> is_reject (snd ev))
         \<and> (kind (fst d) \<noteq> RegularFile \<or> writeStream_err (snd d) = None \<longrightarrow> post = []))"
proof -
  let ?P = "params_cb ''/out'' ''a.zip'' (throws_at 0)"
  let ?E = "env_of archive_open_fails"
  have o: "opens_archive ?E ?P archive_open_fails" by (rule opens_env_of)
  have r: "snd (extractZip ?E ?P) = Rejected (Error ''EIO'')" by code_simp
  note t = errors_surfaced_except_mkdirp [OF o, of "Some (Error ''EACCES'')"]
  from t have a: "extractZip (?E\<lparr>yauzl_open := \<lambda>p. Inr (mkdirp_failing (Some (Error ''EACCES'')) archive_open_fails)\<rparr>) ?P
       = extractZip ?E ?P"
    by (rule conjunct1)
  from t have "\<forall>x. snd (extractZip ?E ?P) = Rejected x \<longrightarrow>
      (\<exists>n d pre post. 0 < n \<and> n \<le> length archive_open_fails
         \<and> deliver (archive_open_fails ! (n - 1)) = Inr d
         \<and> raises ?P (length archive_open_fails) n d x
         \<and> fst (extractZip ?E ?P) = pre @ (n, Reject x) # post
         \<and> (\<forall>ev\<in>set pre. fst ev \<le> n \<and> \<not> is_reject (snd ev))
         \<and> (kind (fst d) \<noteq> RegularFile \<or> writeStream_err (snd d) = None \<longrightarrow> post = []))"
    by (rule conjunct2 [THEN conjunct2])
  then have b: "\<exists>n d pre post. 0 < n \<and> n \<le> length archive_open_fails
         \<and> deliver (archive_open_fails ! (n - 1)) = Inr d
         \<and> raises ?P (length archive_open_fails) n d (Error ''EIO'')
         \<and> fst (extractZip ?E ?P) = pre @ (n, Reject (Error ''EIO'')) # post
         \<and> (\<forall>ev\<in>set pre. fst ev \<le> n \<and> \<not> is_reject (snd ev))
         \<and> (kind (fst d) \<noteq> RegularFile \<or> writeStream_err (snd d) = None \<longrightarrow> post = [])"
    using r by (elim allE [of _ "Error ''EIO''"] impE)
  from o a r b show ?thesis by (intro conjI)
qed

text \<open>
  C4 as stated fails. The creation of the directory \<^verbatim>\<open>dir/\<close> fails; the run
  goes on to the next entry and resolves.
\<close>

theorem mkdirp_failure_is_ignored:
  "mkdirp_err (snd (archive_mkdirp_fails ! 0)) = Some (Error ''EACCES'')
   \<and> extractZip (env_of archive_mkdirp_fails) (params_of ''/out'' ''a.zip'')
     = ([(0, ExistsSync ''a.zip''), (0, IsFile ''a.zip''), (0, YauzlOpen ''a.zip''),
         (0, ReadEntry),
         (1, Mkdirp ''/out/dir/''), (1, ReadEntry),
         (2, Mkdirp ''/out''), (2, OpenReadStream ''a.txt''),
         (2, CreateWriteStream ''/out/a.txt'' 0x81A4), (2, WriteStreamClose ''/out/a.txt''),
         (2, ReadEntry),
         (0, ZipfileClose), (0, Resolve)],
        Resolved)"
  by code_simp

end
